theory Spec2Isabelle
  imports Complex_Main "HOL-Library.Word" "HOL-Library.Multiset"
begin

section \<open>Weekly shift scheduler (src/scheduler.cpp)\<close>

subsection \<open>Constants and data\<close>

definition DAYS :: "string list" where
  "DAYS = [''Mon'', ''Tue'', ''Wed'', ''Thu'', ''Fri'', ''Sat'', ''Sun'']"

definition SHIFTS :: "string list" where
  "SHIFTS = [''morning'', ''afternoon'', ''evening'']"

definition SHIFT_SET :: "string set" where
  "SHIFT_SET = {''morning'', ''afternoon'', ''evening''}"

text \<open>
  The three \<open>int\<close> fields of \<open>Config\<close> are 32-bit words read as signed (\<open>sint\<close>);
  \<open>random_seed\<close> is an \<open>unsigned int\<close>.
\<close>

record Config =
  min_per_shift :: "32 word"
  max_per_shift :: "32 word"
  max_days_per_employee :: "32 word"
  random_seed :: "32 word"

definition default_Config :: Config where
  "default_Config =
     \<lparr>min_per_shift = 2, max_per_shift = 4, max_days_per_employee = 5, random_seed = 42\<rparr>"

text \<open>
  \<open>Schedule\<close> and \<open>Preferences\<close> are nested \<open>unordered_map\<close>s that the code reads
  with \<open>operator[]\<close>, which yields an empty vector for a key that was never written:
  they are total functions whose default value is the empty list.
\<close>

type_synonym Schedule = "string \<Rightarrow> string \<Rightarrow> string list"
type_synonym Preferences = "string \<Rightarrow> string \<Rightarrow> string list"

datatype PrefValue = PrefString string | PrefVector "string list"

text \<open>
  \<open>RawPreferences\<close>: the outer map is iterated by \<open>normalize_preferences\<close>, in an
  order the container does not specify, so it is the list of its entries in iteration
  order. The inner map is only searched with \<open>find\<close>.
\<close>

type_synonym RawPreferences = "(string \<times> (string \<rightharpoonup> PrefValue)) list"

datatype error =
    runtime_error string
  | invalid_argument string
  | arithmetic_trap

subsection \<open>String helpers\<close>

definition isspace :: "char \<Rightarrow> bool" where
  "isspace c = (c \<in> {CHR '' '', CHR 0x09, CHR 0x0A, CHR 0x0B, CHR 0x0C, CHR 0x0D})"

definition tolower :: "char \<Rightarrow> char" where
  "tolower c =
     (case map_of (zip ''ABCDEFGHIJKLMNOPQRSTUVWXYZ'' ''abcdefghijklmnopqrstuvwxyz'') c of
        None \<Rightarrow> c
      | Some l \<Rightarrow> l)"

definition ltrim :: "string \<Rightarrow> string" where
  "ltrim s = dropWhile isspace s"

definition rtrim :: "string \<Rightarrow> string" where
  "rtrim s = rev (dropWhile isspace (rev s))"

definition trim :: "string \<Rightarrow> string" where
  "trim s = rtrim (ltrim s)"

definition to_lower :: "string \<Rightarrow> string" where
  "to_lower s = map tolower s"

text \<open>\<open>std::to_string\<close> on an integer: its decimal digits, with a minus sign.\<close>

definition digit_char :: "nat \<Rightarrow> char" where
  "digit_char d = ''0123456789'' ! d"

fun digits :: "nat \<Rightarrow> string" where
  "digits n = (if n < 10 then [digit_char n] else digits (n div 10) @ [digit_char (n mod 10)])"

definition to_string :: "int \<Rightarrow> string" where
  "to_string i = (if i < 0 then ''-'' @ digits (nat (- i)) else digits (nat i))"

fun unique_cleaned_loop :: "string list \<Rightarrow> string list \<Rightarrow> string set \<Rightarrow> string list" where
  "unique_cleaned_loop [] out seen = out"
| "unique_cleaned_loop (n # names) out seen =
     (let n' = trim n in
      if n' = [] then unique_cleaned_loop names out seen
      else if n' \<in> seen then unique_cleaned_loop names out seen
      else unique_cleaned_loop names (out @ [n']) (insert n' seen))"

definition unique_cleaned :: "string list \<Rightarrow> string list" where
  "unique_cleaned names = unique_cleaned_loop names [] {}"

subsection \<open>Preference normalization\<close>

text \<open>The loop over a vector-valued entry: every cleaned, recognized label is appended.\<close>

fun push_valid :: "string list \<Rightarrow> string list \<Rightarrow> string list" where
  "push_valid ranked [] = ranked"
| "push_valid ranked (s # vec) =
     (let s' = to_lower (trim s) in
      push_valid (if s' \<noteq> [] \<and> s' \<in> SHIFT_SET then ranked @ [s'] else ranked) vec)"

definition ranked_for :: "(string \<rightharpoonup> PrefValue) \<Rightarrow> string \<Rightarrow> string list" where
  "ranked_for per_day day =
     (case per_day day of
        None \<Rightarrow> []
      | Some (PrefString v) \<Rightarrow>
          (let s = to_lower (trim v) in if s \<noteq> [] \<and> s \<in> SHIFT_SET then [s] else [])
      | Some (PrefVector vec) \<Rightarrow> push_valid [] vec)"

definition normalize_employee ::
  "(string \<rightharpoonup> PrefValue) \<Rightarrow> (string \<Rightarrow> string list) \<Rightarrow> string \<Rightarrow> string list" where
  "normalize_employee per_day emp_map =
     fold (\<lambda>day m. m(day := ranked_for per_day day)) DAYS emp_map"

definition normalize_entry ::
  "string \<times> (string \<rightharpoonup> PrefValue) \<Rightarrow> Preferences \<Rightarrow> Preferences" where
  "normalize_entry entry prefs =
     (case entry of (emp, per_day) \<Rightarrow> prefs(emp := normalize_employee per_day (prefs emp)))"

definition normalize_preferences :: "RawPreferences \<Rightarrow> Preferences" where
  "normalize_preferences raw_prefs = fold normalize_entry raw_prefs (\<lambda>_ _. [])"

definition empty_schedule :: Schedule where
  "empty_schedule = (\<lambda>_ _. [])"

subsection \<open>Feasibility check\<close>

text \<open>
  The two products are computed in \<open>size_t\<close> and cast to \<open>int\<close>: the low 32 bits, read
  as signed. Signed overflow of the subtraction is taken as the two's-complement result;
  a division by zero, or of \<open>INT_MIN\<close> by \<open>-1\<close>, traps.
\<close>

definition wrap32 :: "int \<Rightarrow> int" where
  "wrap32 x = signed_take_bit 31 x"

text \<open>Division of \<open>int\<close> in C++ truncates towards zero.\<close>

definition tdiv :: "int \<Rightarrow> int \<Rightarrow> int" where
  "tdiv a b = (if (a < 0) = (b < 0) then \<bar>a\<bar> div \<bar>b\<bar> else - (\<bar>a\<bar> div \<bar>b\<bar>))"

definition tmod :: "int \<Rightarrow> int \<Rightarrow> int" where
  "tmod a b = a - b * tdiv a b"

definition infeasible_message :: "int \<Rightarrow> int \<Rightarrow> int \<Rightarrow> string" where
  "infeasible_message required supply need_more =
     ''Infeasible: need at least '' @ to_string required @ '' total shift assignments, ''
     @ ''but employee supply caps at '' @ to_string supply @ ''. Consider adding ~''
     @ to_string need_more @ '' more employees or increasing max_days_per_employee.''"

definition feasible_or_raise :: "string list \<Rightarrow> Config \<Rightarrow> error + unit" where
  "feasible_or_raise employees cfg =
     (let required = wrap32 (int (length DAYS * length SHIFTS) * sint (min_per_shift cfg));
          supply = wrap32 (int (length employees) * sint (max_days_per_employee cfg))
      in if supply < required then
           (let deficit = wrap32 (required - supply);
                m = sint (max_days_per_employee cfg)
            in if m = 0 \<or> (deficit = - (2 ^ 31) \<and> m = - 1) then Inl arithmetic_trap
               else
                 (let need_more = tdiv deficit m + (if tmod deficit m \<noteq> 0 then 1 else 0)
                  in Inl (runtime_error (infeasible_message required supply need_more))))
         else Inr ())"

subsection \<open>Scheduling state\<close>

text \<open>
  The generator and \<open>std::shuffle\<close> belong to the standard library, whose shuffle
  algorithm is not fixed by the language: both are parameters. \<open>mt19937\<close> builds the
  generator state from the seed; \<open>shuffle\<close> returns the reordered vector and the
  advanced generator state.
\<close>

record 'g rng_lib =
  mt19937 :: "32 word \<Rightarrow> 'g"
  shuffle :: "'g \<Rightarrow> string list \<Rightarrow> string list \<times> 'g"

record state =
  sched :: Schedule
  assigned_on_day :: "string \<Rightarrow> string set"
  days_worked :: "string \<Rightarrow> int"
  warnings :: "string list"
  carry_over_next_day :: "string \<Rightarrow> string list"

definition shift_has_capacity :: "Config \<Rightarrow> state \<Rightarrow> string \<Rightarrow> string \<Rightarrow> bool" where
  "shift_has_capacity cfg st day shift =
     (if sint (max_per_shift cfg) \<le> 0 then True
      else int (length (sched st day shift)) < sint (max_per_shift cfg))"

text \<open>
  The three statements \<open>sched[day][shift].push_back(emp)\<close>,
  \<open>assigned_on_day[day].insert(emp)\<close>, \<open>days_worked[emp] += 1\<close>, which the code
  repeats at each of its five placements.
\<close>

definition place :: "string \<Rightarrow> string \<Rightarrow> string \<Rightarrow> state \<Rightarrow> state" where
  "place emp day shift st =
     st\<lparr>sched := (sched st)(day := (sched st day)(shift := sched st day shift @ [emp])),
        assigned_on_day := (assigned_on_day st)(day := insert emp (assigned_on_day st day)),
        days_worked := (days_worked st)(emp := days_worked st emp + 1)\<rparr>"

subsection \<open>Day-by-day greedy assignment and fallback placement\<close>

definition try_rank ::
  "Config \<Rightarrow> Preferences \<Rightarrow> string \<Rightarrow> nat \<Rightarrow> string \<Rightarrow> state \<Rightarrow> state" where
  "try_rank cfg prefs day rank emp st =
     (if emp \<in> assigned_on_day st day then st
      else if days_worked st emp \<ge> sint (max_days_per_employee cfg) then st
      else
        (let ranked = prefs emp day in
         if rank \<ge> length ranked then st
         else
           (let target = ranked ! rank in
            if target \<notin> SHIFT_SET then st
            else if shift_has_capacity cfg st day target then place emp day target st
            else st)))"

definition fallback ::
  "Config \<Rightarrow> Preferences \<Rightarrow> nat \<Rightarrow> string \<Rightarrow> string \<Rightarrow> state \<Rightarrow> state" where
  "fallback cfg prefs di day emp st =
     (if emp \<in> assigned_on_day st day then st
      else if days_worked st emp \<ge> sint (max_days_per_employee cfg) then st
      else
        (let ranked = prefs emp day in
         if ranked = [] then st
         else
           (let try_order = ranked @ filter (\<lambda>s. s \<notin> set ranked) SHIFTS in
            case find (\<lambda>s. shift_has_capacity cfg st day s) try_order of
              Some s \<Rightarrow> place emp day s st
            | None \<Rightarrow>
                if di + 1 < length DAYS then
                  st\<lparr>carry_over_next_day :=
                       (carry_over_next_day st)
                         (DAYS ! (di + 1) := carry_over_next_day st (DAYS ! (di + 1)) @ [emp])\<rparr>
                else st)))"

definition schedule_day ::
  "Config \<Rightarrow> Preferences \<Rightarrow> string list \<Rightarrow> nat \<Rightarrow> state \<Rightarrow> state" where
  "schedule_day cfg prefs employees di st =
     (let day = DAYS ! di;
          carry = carry_over_next_day st day;
          order = carry @ filter (\<lambda>e. e \<notin> set carry) employees;
          st1 = fold (\<lambda>rank. fold (try_rank cfg prefs day rank) order) [0..<3] st
      in fold (fallback cfg prefs di day) order st1)"

subsection \<open>Minimum-staffing backfill\<close>

definition min_staffing_warning :: "string \<Rightarrow> string \<Rightarrow> nat \<Rightarrow> int \<Rightarrow> string" where
  "min_staffing_warning day shift have required =
     ''Warning: Could not meet min staffing for '' @ day @ '' '' @ shift
     @ '' ('' @ to_string (int have) @ ''/'' @ to_string required
     @ ''). Consider more staff or relaxing caps.''"

fun backfill_loop ::
  "Config \<Rightarrow> string \<Rightarrow> string \<Rightarrow> int \<Rightarrow> int \<Rightarrow> string list \<Rightarrow> state \<Rightarrow> state" where
  "backfill_loop cfg day shift need added [] st = st"
| "backfill_loop cfg day shift need added (emp # candidates) st =
     (if sint (max_per_shift cfg) > 0
         \<and> int (length (sched st day shift)) \<ge> sint (max_per_shift cfg) then st
      else
        (let st' = place emp day shift st; added' = added + 1 in
         if added' \<ge> need then st'
         else backfill_loop cfg day shift need added' candidates st'))"

definition backfill_slot ::
  "'g rng_lib \<Rightarrow> Config \<Rightarrow> string list \<Rightarrow> string \<times> string \<Rightarrow> state \<times> 'g \<Rightarrow> state \<times> 'g" where
  "backfill_slot lib cfg employees slot sr =
     (case (slot, sr) of ((day, shift), (st, rng)) \<Rightarrow>
        (let have = int (length (sched st day shift));
             need = wrap32 (sint (min_per_shift cfg) - have)
         in if need \<le> 0 then (st, rng)
            else
              (let candidates =
                     filter (\<lambda>e. e \<notin> assigned_on_day st day
                                \<and> days_worked st e < sint (max_days_per_employee cfg)) employees;
                   (shuffled, rng') = shuffle lib rng candidates;
                   st' = backfill_loop cfg day shift need 0 shuffled st
               in (if int (length (sched st' day shift)) < sint (min_per_shift cfg) then
                     st'\<lparr>warnings := warnings st' @
                           [min_staffing_warning day shift (length (sched st' day shift))
                              (sint (min_per_shift cfg))]\<rparr>
                   else st', rng'))))"

subsection \<open>Maximum-capacity enforcement\<close>

fun next_in :: "string list \<Rightarrow> string \<Rightarrow> string option" where
  "next_in [] day = None"
| "next_in [d] day = None"
| "next_in (d # d' # ds) day = (if d = day then Some d' else next_in (d' # ds) day)"

definition relocation_note :: "string \<Rightarrow> string \<Rightarrow> string \<Rightarrow> string" where
  "relocation_note emp day shift =
     ''Note: Could not relocate '' @ emp @ '' from '' @ day @ '' '' @ shift
     @ ''; leaving unassigned.''"

text \<open>One turn of the \<open>while\<close> loop: pop the last employee of the slot and relocate.\<close>

definition relocate_last :: "Config \<Rightarrow> string \<Rightarrow> string \<Rightarrow> state \<Rightarrow> state" where
  "relocate_last cfg day shift st =
     (let vec = sched st day shift;
          emp = last vec;
          st1 = st\<lparr>sched := (sched st)(day := (sched st day)(shift := butlast vec))\<rparr>;
          st2 = (if emp \<in> assigned_on_day st1 day then
                   st1\<lparr>assigned_on_day :=
                         (assigned_on_day st1)(day := assigned_on_day st1 day - {emp}),
                       days_worked := (days_worked st1)(emp := days_worked st1 emp - 1)\<rparr>
                 else st1);
          note = st2\<lparr>warnings := warnings st2 @ [relocation_note emp day shift]\<rparr>
      in case find (\<lambda>s2. s2 \<noteq> shift
                        \<and> int (length (sched st2 day s2)) < sint (max_per_shift cfg)
                        \<and> emp \<notin> assigned_on_day st2 day) SHIFTS of
           Some s2 \<Rightarrow> place emp day s2 st2
         | None \<Rightarrow>
             (case next_in DAYS day of
                None \<Rightarrow> note
              | Some next_day \<Rightarrow>
                  (case find (\<lambda>s. emp \<notin> assigned_on_day st2 next_day
                                  \<and> (sint (max_per_shift cfg) \<le> 0
                                     \<or> int (length (sched st2 next_day s)) < sint (max_per_shift cfg)))
                          SHIFTS of
                     Some s \<Rightarrow> place emp next_day s st2
                   | None \<Rightarrow> note)))"

text \<open>
  The \<open>while\<close> loop of one slot. The code enters it only under the guard
  \<open>max_per_shift > 0\<close> of the enclosing \<open>if\<close>; the guard is repeated in the loop
  condition, where it makes the popped vector non-empty.
\<close>

function enforce_slot :: "Config \<Rightarrow> string \<Rightarrow> string \<Rightarrow> state \<Rightarrow> state" where
  "enforce_slot cfg day shift st =
     (if 0 < sint (max_per_shift cfg)
         \<and> int (length (sched st day shift)) > sint (max_per_shift cfg)
      then enforce_slot cfg day shift (relocate_last cfg day shift st)
      else st)"
  by pat_completeness auto

termination enforce_slot
proof (relation "measure (\<lambda>(cfg, day, shift, st). length (sched st day shift))")
  show "wf (measure (\<lambda>(cfg :: Config, day, shift, st :: state). length (sched st day shift)))"
    by simp
next
  fix cfg :: Config and day shift and st :: state
  assume loop: "0 < sint (max_per_shift cfg)
    \<and> sint (max_per_shift cfg) < int (length (sched st day shift))"
  have found: "find P xs = Some x \<Longrightarrow> P x" for P and xs :: "string list" and x
    by (induction xs) (auto split: if_splits)
  have other_day: "next_in DAYS day = Some n \<Longrightarrow> n \<noteq> day" for n
    by (auto simp: DAYS_def split: if_splits)
  from loop have "sched st day shift \<noteq> []"
    by auto
  then have "length (sched (relocate_last cfg day shift st) day shift)
      < length (sched st day shift)"
    using other_day
    by (auto simp: relocate_last_def Let_def place_def split: option.splits dest!: found)
  then show "((cfg, day, shift, relocate_last cfg day shift st), (cfg, day, shift, st))
      \<in> measure (\<lambda>(cfg, day, shift, st). length (sched st day shift))"
    by simp
qed

declare enforce_slot.simps [simp del]

subsection \<open>The scheduler\<close>

definition slots :: "(string \<times> string) list" where
  "slots = concat (map (\<lambda>day. map (\<lambda>shift. (day, shift)) SHIFTS) DAYS)"

definition init_state :: state where
  "init_state =
     \<lparr>sched = empty_schedule, assigned_on_day = (\<lambda>_. {}), days_worked = (\<lambda>_. 0),
      warnings = [], carry_over_next_day = (\<lambda>_. [])\<rparr>"

definition schedule_employees ::
  "'g rng_lib \<Rightarrow> string list \<Rightarrow> RawPreferences \<Rightarrow> Config \<Rightarrow> error + (Schedule \<times> string list)" where
  "schedule_employees lib employees0 raw_preferences cfg =
     (let rng = mt19937 lib (random_seed cfg);
          employees = unique_cleaned employees0
      in if employees = [] then Inl (invalid_argument ''No employees provided.'')
         else
           (case feasible_or_raise employees cfg of
              Inl e \<Rightarrow> Inl e
            | Inr _ \<Rightarrow>
                (let prefs = normalize_preferences raw_preferences;
                     st1 = fold (schedule_day cfg prefs employees) [0..<length DAYS] init_state;
                     (st2, rng') = fold (backfill_slot lib cfg employees) slots (st1, rng);
                     st3 = (if sint (max_per_shift cfg) > 0 then
                              fold (\<lambda>(day, shift). enforce_slot cfg day shift) slots st2
                            else st2)
                 in Inr (sched st3, warnings st3))))"

text \<open>
  An instance of the library parameters, for evaluating the scheduler on concrete
  inputs: the generator state is a counter that starts at the seed, and shuffling
  rotates the vector by the counter and advances it.
\<close>

definition rotating_lib :: "nat rng_lib" where
  "rotating_lib = \<lparr>mt19937 = unat, shuffle = (\<lambda>g xs. (rotate g xs, Suc g))\<rparr>"

definition lenient_Config :: Config where
  "lenient_Config =
     \<lparr>min_per_shift = 1, max_per_shift = 4, max_days_per_employee = 21, random_seed = 42\<rparr>"

definition negative_Config :: Config where
  "negative_Config =
     \<lparr>min_per_shift = - 1, max_per_shift = 4, max_days_per_employee = - 1, random_seed = 42\<rparr>"

subsection \<open>Invariants of the scheduling state\<close>

text \<open>
  \<open>roster\<close> lists everyone scheduled on a day, over the three shifts. A state is
  consistent when nobody is on a roster twice, the rosters agree with
  \<open>assigned_on_day\<close>, \<open>days_worked\<close> counts the days an employee is assigned on, and
  nobody is above the weekly cap. It is within the cap when, for a positive
  \<open>max_per_shift\<close>, no slot holds more employees than that.
\<close>

definition roster :: "state \<Rightarrow> string \<Rightarrow> string list" where
  "roster st day = concat (map (sched st day) SHIFTS)"

definition consistent :: "Config \<Rightarrow> state \<Rightarrow> bool" where
  "consistent cfg st \<longleftrightarrow>
     (\<forall>day. distinct (roster st day) \<and> set (roster st day) = assigned_on_day st day)
     \<and> (\<forall>emp. days_worked st emp = int (card {day \<in> set DAYS. emp \<in> assigned_on_day st day}))
     \<and> (\<forall>emp. days_worked st emp \<le> sint (max_days_per_employee cfg))"

definition within_cap :: "Config \<Rightarrow> state \<Rightarrow> bool" where
  "within_cap cfg st \<longleftrightarrow>
     (0 < sint (max_per_shift cfg) \<longrightarrow>
        (\<forall>day shift. int (length (sched st day shift)) \<le> sint (max_per_shift cfg)))"

section \<open>Kinship relation engine (src/Familytree.pl, first part)\<close>

inductive parent :: "string \<Rightarrow> string \<Rightarrow> bool" where
  john_bob: "parent ''john'' ''bob''"
| anna_bob: "parent ''anna'' ''bob''"
| john_clara: "parent ''john'' ''clara''"
| anna_clara: "parent ''anna'' ''clara''"
| bob_eva: "parent ''bob'' ''eva''"
| diana_eva: "parent ''diana'' ''eva''"
| bob_frank: "parent ''bob'' ''frank''"
| diana_frank: "parent ''diana'' ''frank''"
| clara_grace: "parent ''clara'' ''grace''"
| eric_grace: "parent ''eric'' ''grace''"
| frank_ian: "parent ''frank'' ''ian''"
| helen_ian: "parent ''helen'' ''ian''"

text \<open>A query succeeds when the goal has a derivation from the clauses.\<close>

inductive ancestor :: "string \<Rightarrow> string \<Rightarrow> bool" where
  ancestor_base: "parent a d \<Longrightarrow> ancestor a d"
| ancestor_step: "parent a m \<Longrightarrow> ancestor m d \<Longrightarrow> ancestor a d"

inductive descendant :: "string \<Rightarrow> string \<Rightarrow> bool" where
  descendant_base: "parent a d \<Longrightarrow> descendant a d"
| descendant_step: "parent a m \<Longrightarrow> descendant m d \<Longrightarrow> descendant a d"

code_pred parent .
code_pred ancestor .
code_pred descendant .

section \<open>Statistics calculators\<close>

text \<open>
  Both programs print floating-point numbers with \<open>%.6f\<close>. The model keeps each printed
  item as a value, and a quotient of two integers as the real quotient: each program
  converts the same two integers to \<open>double\<close> and divides them once.
\<close>

datatype out_line =
    Count nat
  | Mean real
  | Median real
  | Mode "int list" "int option"

record process =
  stdout :: "out_line list"
  stderr :: string
  exit_code :: int

definition newline :: string where
  "newline = [CHR 0x0A]"

definition quote :: string where
  "quote = [CHR 0x27]"

subsection \<open>Functional calculator (stats.ml, src/Familytree.pl, second part)\<close>

text \<open>An OCaml \<open>int\<close> has 63 bits on a 64-bit machine; \<open>+\<close> wraps around.\<close>

definition wrap63 :: "int \<Rightarrow> int" where
  "wrap63 x = signed_take_bit 62 x"

datatype ml_exn = Invalid_argument string

definition mean_ml :: "int list \<Rightarrow> ml_exn + real" where
  "mean_ml xs =
     (case xs of
        [] \<Rightarrow> Inl (Invalid_argument ''mean: empty list'')
      | _ \<Rightarrow>
          (let (sum, count) = foldl (\<lambda>(s, c) x. (wrap63 (s + x), wrap63 (c + 1))) (0, 0) xs
           in Inr (real_of_int sum / real_of_int count)))"

definition median :: "int list \<Rightarrow> ml_exn + real" where
  "median xs =
     (case xs of
        [] \<Rightarrow> Inl (Invalid_argument ''median: empty list'')
      | _ \<Rightarrow>
          (let s = sort xs; n = length s in
           if n mod 2 = 1 then Inr (real_of_int (s ! (n div 2)))
           else
             (let a = s ! (n div 2 - 1); b = s ! (n div 2)
              in Inr (real_of_int (wrap63 (a + b)) / 2))))"

text \<open>
  \<open>IntMap\<close> (the standard library's balanced tree) as the list of its bindings in
  increasing key order, which is what \<open>IntMap.bindings\<close> returns and what
  \<open>IntMap.fold\<close> traverses.
\<close>

fun intmap_update ::
  "int \<Rightarrow> (int option \<Rightarrow> int option) \<Rightarrow> (int \<times> int) list \<Rightarrow> (int \<times> int) list" where
  "intmap_update k f [] = (case f None of None \<Rightarrow> [] | Some v \<Rightarrow> [(k, v)])"
| "intmap_update k f ((k', v') # m) =
     (if k < k' then (case f None of None \<Rightarrow> (k', v') # m | Some v \<Rightarrow> (k, v) # (k', v') # m)
      else if k = k' then (case f (Some v') of None \<Rightarrow> m | Some v \<Rightarrow> (k, v) # m)
      else (k', v') # intmap_update k f m)"

definition freq_map :: "int list \<Rightarrow> (int \<times> int) list" where
  "freq_map xs =
     foldl (\<lambda>m x. intmap_update x (\<lambda>old. case old of None \<Rightarrow> Some 1 | Some c \<Rightarrow> Some (wrap63 (c + 1))) m)
       [] xs"

definition modes :: "int list \<Rightarrow> ml_exn + int list" where
  "modes xs =
     (case xs of
        [] \<Rightarrow> Inl (Invalid_argument ''modes: empty list'')
      | _ \<Rightarrow>
          (let m = freq_map xs;
               maxf = fold (\<lambda>(_, c) acc. max c acc) m 0
           in Inr (sort (map fst (filter (\<lambda>(_, c). c = maxf) m)))))"

text \<open>
  \<open>int_of_string_opt\<close> belongs to the OCaml runtime (\<open>parse_intnat\<close> with 63 bits): an
  optional sign, an optional prefix \<open>0x 0o 0b 0u\<close>, one digit of the base, then digits of
  the base and underscores up to the end of the string; the accumulator is an unsigned
  64-bit word whose overflow fails.
\<close>

definition parse_digit :: "char \<Rightarrow> nat option" where
  "parse_digit c =
     (let n = (of_char c :: nat) in
      if 48 \<le> n \<and> n \<le> 57 then Some (n - 48)
      else if 65 \<le> n \<and> n \<le> 70 then Some (n - 65 + 10)
      else if 97 \<le> n \<and> n \<le> 102 then Some (n - 97 + 10)
      else None)"

fun parse_sign :: "string \<Rightarrow> int \<times> string" where
  "parse_sign (c # p) =
     (if c = CHR ''-'' then (- 1, p) else if c = CHR ''+'' then (1, p) else (1, c # p))"
| "parse_sign [] = (1, [])"

fun parse_base :: "string \<Rightarrow> nat \<times> bool \<times> string" where
  "parse_base (c0 # c1 # p) =
     (if c0 = CHR ''0'' then
        (if c1 = CHR ''x'' \<or> c1 = CHR ''X'' then (16, False, p)
         else if c1 = CHR ''o'' \<or> c1 = CHR ''O'' then (8, False, p)
         else if c1 = CHR ''b'' \<or> c1 = CHR ''B'' then (2, False, p)
         else if c1 = CHR ''u'' \<or> c1 = CHR ''U'' then (10, False, p)
         else (10, True, c0 # c1 # p))
      else (10, True, c0 # c1 # p))"
| "parse_base p = (10, True, p)"

fun parse_rest :: "nat \<Rightarrow> nat \<Rightarrow> string \<Rightarrow> (nat \<times> string) option" where
  "parse_rest base res [] = Some (res, [])"
| "parse_rest base res (c # p) =
     (if c = CHR ''_'' then parse_rest base res p
      else
        (case parse_digit c of
           None \<Rightarrow> Some (res, c # p)
         | Some d \<Rightarrow>
             if d \<ge> base then Some (res, c # p)
             else if int (base * res + d) \<ge> 2 ^ 64 then None
             else parse_rest base (base * res + d) p))"

definition int_of_string_opt :: "string \<Rightarrow> int option" where
  "int_of_string_opt s =
     (case parse_sign s of (sign, p) \<Rightarrow>
      case parse_base p of (base, signedness, p') \<Rightarrow>
      case p' of
        [] \<Rightarrow> None
      | c # p'' \<Rightarrow>
          (case parse_digit c of
             None \<Rightarrow> None
           | Some d \<Rightarrow>
               if d \<ge> base then None
               else
                 (case parse_rest base d p'' of
                    None \<Rightarrow> None
                  | Some (res, rest) \<Rightarrow>
                      if rest \<noteq> [] then None
                      else if signedness then
                        (if sign \<ge> 0 \<and> int res \<ge> 2 ^ 62 then None
                         else if sign < 0 \<and> int res > 2 ^ 62 then None
                         else Some (sign * int res))
                      else
                        (if int res \<ge> 2 ^ 63 then None
                         else Some (wrap63 (sign * int res))))))"

text \<open>\<open>describe\<close> formats the four lines; the items it prints are kept.\<close>

definition describe :: "int list \<Rightarrow> ml_exn + out_line list" where
  "describe xs =
     (case mean_ml xs of Inl e \<Rightarrow> Inl e | Inr m \<Rightarrow>
      case median xs of Inl e \<Rightarrow> Inl e | Inr med \<Rightarrow>
      case modes xs of Inl e \<Rightarrow> Inl e | Inr ms \<Rightarrow>
        Inr [Count (length xs), Mean m, Median med, Mode ms None])"

text \<open>
  \<open>List.map to_int args\<close> converts the tokens from left to right; the first token that
  does not parse ends the program.
\<close>

fun map_to_int :: "string list \<Rightarrow> string + int list" where
  "map_to_int [] = Inr []"
| "map_to_int (s # args) =
     (case int_of_string_opt s of
        None \<Rightarrow> Inl s
      | Some v \<Rightarrow> (case map_to_int args of Inl bad \<Rightarrow> Inl bad | Inr vs \<Rightarrow> Inr (v # vs)))"

text \<open>
  The program on \<open>Sys.argv = prog # args\<close>. An exception that escapes (there is none
  for a non-empty list) would end the program with code 2.
\<close>

definition stats_ml :: "string \<Rightarrow> string list \<Rightarrow> process" where
  "stats_ml prog args =
     (if length (prog # args) \<le> 1 then
        \<lparr>stdout = [],
         stderr = ''Usage: '' @ prog @ '' <int1> <int2> ...'' @ newline
                  @ ''Example: '' @ prog @ '' 1 2 2 3 4 4 4 5'' @ newline,
         exit_code = 1\<rparr>
      else
        (case map_to_int args of
           Inl s \<Rightarrow> \<lparr>stdout = [], stderr = ''Invalid integer: '' @ s @ newline, exit_code = 2\<rparr>
         | Inr data \<Rightarrow>
             (case describe data of
                Inl (Invalid_argument msg) \<Rightarrow>
                  \<lparr>stdout = [],
                   stderr = ''Fatal error: exception Invalid_argument('' @ [CHR 0x22] @ msg
                            @ [CHR 0x22] @ '')'' @ newline,
                   exit_code = 2\<rparr>
              | Inr lines \<Rightarrow> \<lparr>stdout = lines, stderr = [], exit_code = 0\<rparr>)))"

subsection \<open>Array-based calculator (src/unnamed/part_000)\<close>

text \<open>
  \<open>strtol(s, &end, 10)\<close> belongs to the C library: leading white space, an optional
  sign, decimal digits. It yields the value, the number of characters consumed
  (\<open>end - s\<close>, zero when there is no digit) and whether \<open>errno\<close> was set to
  \<open>ERANGE\<close>. A \<open>long\<close> has 64 bits here; with 32 bits \<open>parse_int_strict\<close> gives the
  same results, as it rejects what does not fit an \<open>int\<close>.
\<close>

definition isdigit :: "char \<Rightarrow> bool" where
  "isdigit c = (let n = (of_char c :: nat) in 48 \<le> n \<and> n \<le> 57)"

definition decimal :: "string \<Rightarrow> nat" where
  "decimal ds = foldl (\<lambda>acc c. 10 * acc + (of_char c - 48)) 0 ds"

definition strtol :: "string \<Rightarrow> int \<times> nat \<times> bool" where
  "strtol s =
     (let ws = takeWhile isspace s;
          p = dropWhile isspace s;
          (sign, q) = parse_sign p;
          ds = takeWhile isdigit q
      in if ds = [] then (0, 0, False)
         else
           (let v = sign * int (decimal ds);
                consumed = length ws + (length p - length q) + length ds
            in if v > 2 ^ 63 - 1 then (2 ^ 63 - 1, consumed, True)
               else if v < - (2 ^ 63) then (- (2 ^ 63), consumed, True)
               else (v, consumed, False)))"

definition parse_int_strict :: "string \<Rightarrow> int option" where
  "parse_int_strict s =
     (case strtol s of (v, consumed, erange) \<Rightarrow>
        if erange \<or> consumed = 0 \<or> consumed \<noteq> length s then None
        else if v < - (2 ^ 31) \<or> v > 2 ^ 31 - 1 then None
        else Some v)"

text \<open>
  The arrays are lists of \<open>int\<close> values, each within the 32-bit range; \<open>n\<close> is the
  length. \<open>sum\<close> is a \<open>long long\<close>, which the sum of fewer than \<open>2 ^ 31\<close> such values
  fits.
\<close>

definition mean_c :: "int list \<Rightarrow> real" where
  "mean_c a = real_of_int (foldl (\<lambda>sum x. sum + x) 0 a) / real (length a)"

text \<open>
  \<open>left + right\<close> is an addition of two \<open>int\<close>: 32 bits, the two's-complement result on
  overflow. With \<open>n = 0\<close> the function would read before the array; \<open>main\<close> never
  calls it so.
\<close>

definition median_sorted :: "int list \<Rightarrow> real option" where
  "median_sorted srt =
     (let n = length srt in
      if n = 0 then None
      else if n mod 2 = 1 then Some (real_of_int (srt ! (n div 2)))
      else
        (let left = srt ! (n div 2 - 1); right = srt ! (n div 2)
         in Some (real_of_int (wrap32 (left + right)) / 2)))"

text \<open>
  The loop of \<open>modes_from_sorted\<close>; \<open>modes_out\<close> stands for the first
  \<open>modes_count\<close> cells of the output buffer.
\<close>

function modes_loop :: "int list \<Rightarrow> nat \<Rightarrow> int \<Rightarrow> int list \<Rightarrow> int list \<times> int" where
  "modes_loop srt i maxf modes_out =
     (if i < length srt then
        (let v = srt ! i;
             count = 1 + length (takeWhile (\<lambda>x. x = v) (drop (i + 1) srt))
         in if int count > maxf then modes_loop srt (i + count) (int count) [v]
            else if int count = maxf then modes_loop srt (i + count) maxf (modes_out @ [v])
            else modes_loop srt (i + count) maxf modes_out)
      else (modes_out, maxf))"
  by pat_completeness auto

termination modes_loop
  by (relation "measure (\<lambda>(srt, i, maxf, modes_out). length srt - i)") auto

declare modes_loop.simps [simp del]

definition modes_from_sorted :: "int list \<Rightarrow> int list \<times> int" where
  "modes_from_sorted srt = (if length srt = 0 then ([], 0) else modes_loop srt 0 0 [])"

fun parse_args :: "string list \<Rightarrow> string + int list" where
  "parse_args [] = Inr []"
| "parse_args (s # args) =
     (case parse_int_strict s of
        None \<Rightarrow> Inl s
      | Some v \<Rightarrow> (case parse_args args of Inl bad \<Rightarrow> Inl bad | Inr vs \<Rightarrow> Inr (v # vs)))"

text \<open>
  \<open>main\<close> on \<open>argv = prog # args\<close>, every \<open>malloc\<close> succeeding; \<open>EXIT_FAILURE\<close> is 1
  and \<open>qsort\<close> with \<open>cmp_int\<close> sorts in increasing order. Where \<open>median_sorted\<close> is
  called the array is not empty, so it yields a value.
\<close>

definition stats_c :: "string \<Rightarrow> string list \<Rightarrow> process" where
  "stats_c prog args =
     (if length (prog # args) \<le> 1 then
        \<lparr>stdout = [],
         stderr = ''Usage: '' @ prog @ '' <int1> <int2> ...'' @ newline
                  @ ''Example: '' @ prog @ '' 1 2 2 3 4 4 4 5'' @ newline,
         exit_code = 1\<rparr>
      else
        (case parse_args args of
           Inl s \<Rightarrow>
             \<lparr>stdout = [], stderr = ''Invalid integer: '' @ quote @ s @ quote @ newline,
              exit_code = 1\<rparr>
         | Inr a \<Rightarrow>
             (let srt = sort a;
                  m = mean_c a;
                  med = median_sorted srt;
                  (ms, maxfreq) = modes_from_sorted srt
              in \<lparr>stdout = [Count (length a), Mean m, Median (the med), Mode ms (Some maxfreq)],
                  stderr = [], exit_code = 0\<rparr>)))"

section \<open>Properties of the kinship engine\<close>

text \<open>
  C8. In the kinship engine \<open>descendant(A, D)\<close> succeeds exactly when \<open>ancestor(A, D)\<close>
  succeeds: both are the closure of \<open>parent\<close> in the direction from parent to child.
\<close>

theorem descendant_iff_ancestor:
  "descendant a d \<longleftrightarrow> ancestor a d"
proof
  assume "descendant a d"
  then show "ancestor a d"
    by induction (auto intro: ancestor.intros)
next
  assume "ancestor a d"
  then show "descendant a d"
    by induction (auto intro: descendant.intros)
qed

theorem descendant_iff_ancestor_witness:
  "descendant ''john'' ''eva'' \<and> ancestor ''john'' ''eva''"
proof -
  have "ancestor ''john'' ''eva''"
    by (rule ancestor_step [OF john_bob]) (rule ancestor_base [OF bob_eva])
  then show ?thesis
    using descendant_iff_ancestor [of "''john''" "''eva''"] by simp
qed

section \<open>Properties of the statistics calculators\<close>

lemmas ml_parser_defs = int_of_string_opt_def parse_digit_def wrap63_def

lemmas c_parser_defs = parse_int_strict_def strtol_def isspace_def isdigit_def decimal_def

lemma map_to_int_first_bad:
  "find (\<lambda>s. int_of_string_opt s = None) args = Some t \<Longrightarrow> map_to_int args = Inl t"
  by (induction args) (auto split: if_splits)

lemma parse_args_first_bad:
  "find (\<lambda>s. parse_int_strict s = None) args = Some t \<Longrightarrow> parse_args args = Inl t"
  by (induction args) (auto split: if_splits)

text \<open>
  C10. The two calculators do not accept the same tokens: the functional calculator
  reads \<open>0x10\<close> as 16 and \<open>1_000\<close> as 1000 and goes on to print statistics, while the
  array-based calculator rejects both tokens and exits with the invalid-integer message.
\<close>

theorem parsers_accept_different_tokens:
  "int_of_string_opt ''0x10'' = Some 16 \<and> parse_int_strict ''0x10'' = None
   \<and> int_of_string_opt ''1_000'' = Some 1000 \<and> parse_int_strict ''1_000'' = None
   \<and> stats_ml ''stats'' [''0x10''] =
       \<lparr>stdout = [Count 1, Mean 16, Median 16, Mode [16] None], stderr = [], exit_code = 0\<rparr>
   \<and> stats_c ''stats'' [''0x10''] =
       \<lparr>stdout = [], stderr = ''Invalid integer: '' @ quote @ ''0x10'' @ quote @ newline,
        exit_code = 1\<rparr>"
  by (simp add: ml_parser_defs c_parser_defs stats_ml_def stats_c_def describe_def mean_ml_def
      median_def modes_def freq_map_def)

text \<open>
  C7, as the code has it. When some token does not parse, each calculator names the
  first such token on the error stream, prints nothing on the output stream and exits
  with a non-zero code: the functional calculator writes \<open>Invalid integer: <token>\<close>,
  without quotes, and exits with code 2; the array-based calculator writes
  \<open>Invalid integer: '<token>'\<close> and exits with the failure code 1.
\<close>

theorem invalid_token_reported:
  "(find (\<lambda>s. int_of_string_opt s = None) args = Some t \<longrightarrow>
      stats_ml prog args =
        \<lparr>stdout = [], stderr = ''Invalid integer: '' @ t @ newline, exit_code = 2\<rparr>)
   \<and> (find (\<lambda>s. parse_int_strict s = None) args = Some u \<longrightarrow>
      stats_c prog args =
        \<lparr>stdout = [], stderr = ''Invalid integer: '' @ quote @ u @ quote @ newline,
         exit_code = 1\<rparr>)"
proof (intro conjI impI)
  assume "find (\<lambda>s. int_of_string_opt s = None) args = Some t"
  then have "map_to_int args = Inl t" and "args \<noteq> []"
    by (auto simp: map_to_int_first_bad)
  then show "stats_ml prog args =
      \<lparr>stdout = [], stderr = ''Invalid integer: '' @ t @ newline, exit_code = 2\<rparr>"
    by (cases args) (simp_all add: stats_ml_def)
next
  assume "find (\<lambda>s. parse_int_strict s = None) args = Some u"
  then have "parse_args args = Inl u" and "args \<noteq> []"
    by (auto simp: parse_args_first_bad)
  then show "stats_c prog args =
      \<lparr>stdout = [], stderr = ''Invalid integer: '' @ quote @ u @ quote @ newline,
       exit_code = 1\<rparr>"
    by (cases args) (simp_all add: stats_c_def)
qed

theorem invalid_token_reported_witness:
  "stats_ml ''stats'' [''1'', ''abc'', ''x''] =
     \<lparr>stdout = [], stderr = ''Invalid integer: abc'' @ newline, exit_code = 2\<rparr>
   \<and> stats_c ''stats'' [''1'', ''abc'', ''x''] =
     \<lparr>stdout = [], stderr = ''Invalid integer: '' @ quote @ ''abc'' @ quote @ newline,
      exit_code = 1\<rparr>"
proof -
  have "find (\<lambda>s. int_of_string_opt s = None) [''1'', ''abc'', ''x''] = Some ''abc''"
    by (simp add: ml_parser_defs)
  moreover have "find (\<lambda>s. parse_int_strict s = None) [''1'', ''abc'', ''x''] = Some ''abc''"
    by (simp add: c_parser_defs)
  ultimately show ?thesis
    using invalid_token_reported
      [of "[''1'', ''abc'', ''x'']" "''abc''" "''stats''" "''abc''"]
    by simp
qed

text \<open>
  The claim C7 says that both messages have the format \<open>Invalid integer: '<token>'\<close>.
  On the token \<open>abc\<close> the functional calculator writes the token without quotes.
\<close>

theorem invalid_token_format_counterexample:
  "stats_ml ''stats'' [''abc''] =
     \<lparr>stdout = [], stderr = ''Invalid integer: abc'' @ newline, exit_code = 2\<rparr>
   \<and> stderr (stats_ml ''stats'' [''abc''])
       \<noteq> ''Invalid integer: '' @ quote @ ''abc'' @ quote @ newline"
  by (simp add: stats_ml_def ml_parser_defs quote_def newline_def)

text \<open>
  Where the two calculators agree. On a non-empty list of 32-bit values the means are
  the same, and the medians are the same whenever the sum of the two central elements of
  an even-length list fits 32 bits; the two inputs of the specification give the same
  statistics in both programs.
\<close>

lemma wrap63_id: "- (2 ^ 62) \<le> x \<Longrightarrow> x < 2 ^ 62 \<Longrightarrow> wrap63 x = x"
  by (simp add: wrap63_def signed_take_bit_int_eq_self)

lemma foldl_sum_count:
  assumes "\<forall>x \<in> set xs. - (2 ^ 31) \<le> x \<and> x < 2 ^ 31"
    and "0 \<le> c" and "c + int (length xs) < 2 ^ 31"
    and "- (c * 2 ^ 31) \<le> s" and "s \<le> c * 2 ^ 31"
  shows "foldl (\<lambda>(s, c) x. (wrap63 (s + x), wrap63 (c + 1))) (s, c) xs
    = (s + sum_list xs, c + int (length xs))"
  using assms
proof (induction xs arbitrary: s c)
  case Nil
  then show ?case by simp
next
  case (Cons x xs)
  from Cons.prems have x: "- (2 ^ 31) \<le> x" "x < 2 ^ 31" and c: "c + 1 < 2 ^ 31"
    by simp_all
  from Cons.prems(2) c have "(c + 1) * 2 ^ 31 < (2 ^ 62 :: int)"
    by simp
  with Cons.prems(4,5) x have big: "- (2 ^ 62) \<le> s + x" "s + x < 2 ^ 62"
    and lo: "- ((c + 1) * 2 ^ 31) \<le> s + x" and hi: "s + x \<le> (c + 1) * 2 ^ 31"
    by (simp_all add: algebra_simps)
  have ws: "wrap63 (s + x) = s + x"
    using big by (rule wrap63_id)
  have wc: "wrap63 (c + 1) = c + 1"
    using Cons.prems(2) c by (intro wrap63_id) simp_all
  have "foldl (\<lambda>(s, c) x. (wrap63 (s + x), wrap63 (c + 1))) (s + x, c + 1) xs
      = (s + x + sum_list xs, c + 1 + int (length xs))"
    using Cons.prems(1,2,3) lo hi by (intro Cons.IH) simp_all
  then show ?case
    by (simp add: ws wc add.assoc)
qed

lemma foldl_plus: "foldl (\<lambda>sum x. sum + x) (s :: int) a = s + sum_list a"
  by (induction a arbitrary: s) simp_all

lemma mean_agree:
  assumes "xs \<noteq> []" and "\<forall>x \<in> set xs. - (2 ^ 31) \<le> x \<and> x < 2 ^ 31"
    and "int (length xs) < 2 ^ 31"
  shows "mean_ml xs = Inr (mean_c xs)"
proof -
  have "foldl (\<lambda>(s, c) x. (wrap63 (s + x), wrap63 (c + 1))) (0, 0) xs
      = (0 + sum_list xs, 0 + int (length xs))"
    using assms(2,3) by (intro foldl_sum_count) simp_all
  with assms(1) show ?thesis
    by (cases xs) (simp_all add: mean_ml_def mean_c_def foldl_plus)
qed

lemma median_agree:
  assumes "xs \<noteq> []" and "\<forall>x \<in> set xs. - (2 ^ 31) \<le> x \<and> x < 2 ^ 31"
    and "even (length xs) \<longrightarrow>
       - (2 ^ 31) \<le> sort xs ! (length xs div 2 - 1) + sort xs ! (length xs div 2)
       \<and> sort xs ! (length xs div 2 - 1) + sort xs ! (length xs div 2) < 2 ^ 31"
  shows "case median xs of Inl e \<Rightarrow> False | Inr m \<Rightarrow> median_sorted (sort xs) = Some m"
proof (cases "even (length xs)")
  case True
  let ?a = "sort xs ! (length xs div 2 - 1)" and ?b = "sort xs ! (length xs div 2)"
  from True assms(3) have fit: "- (2 ^ 31) \<le> ?a + ?b" "?a + ?b < 2 ^ 31"
    by simp_all
  then have "wrap32 (?a + ?b) = ?a + ?b"
    by (simp add: wrap32_def signed_take_bit_int_eq_self)
  moreover from fit have "wrap63 (?a + ?b) = ?a + ?b"
    by (intro wrap63_id) simp_all
  ultimately show ?thesis
    using True assms(1)
    by (simp add: median_def median_sorted_def Let_def list.case_eq_if)
next
  case False
  with assms(1) show ?thesis
    by (simp add: median_def median_sorted_def Let_def list.case_eq_if odd_iff_mod_2_eq_one)
qed

lemma stats_example_eight:
  "stats_ml ''stats'' [''1'', ''2'', ''2'', ''3'', ''4'', ''4'', ''4'', ''5''] =
     \<lparr>stdout = [Count 8, Mean 3.125, Median 3.5, Mode [4] None], stderr = [], exit_code = 0\<rparr>
   \<and> stats_c ''stats'' [''1'', ''2'', ''2'', ''3'', ''4'', ''4'', ''4'', ''5''] =
     \<lparr>stdout = [Count 8, Mean 3.125, Median 3.5, Mode [4] (Some 3)], stderr = [],
      exit_code = 0\<rparr>"
  by (simp add: ml_parser_defs c_parser_defs stats_ml_def stats_c_def describe_def mean_ml_def
      median_def modes_def freq_map_def mean_c_def median_sorted_def modes_from_sorted_def
      modes_loop.simps wrap32_def)

lemma stats_example_four:
  "stats_ml ''stats'' [''1'', ''2'', ''3'', ''4''] =
     \<lparr>stdout = [Count 4, Mean 2.5, Median 2.5, Mode [1, 2, 3, 4] None], stderr = [],
      exit_code = 0\<rparr>
   \<and> stats_c ''stats'' [''1'', ''2'', ''3'', ''4''] =
     \<lparr>stdout = [Count 4, Mean 2.5, Median 2.5, Mode [1, 2, 3, 4] (Some 1)], stderr = [],
      exit_code = 0\<rparr>"
  by (simp add: ml_parser_defs c_parser_defs stats_ml_def stats_c_def describe_def mean_ml_def
      median_def modes_def freq_map_def mean_c_def median_sorted_def modes_from_sorted_def
      modes_loop.simps wrap32_def)

text \<open>
  C6 at the arguments \<open>2147483647 2147483647\<close>. The array-based calculator adds the
  two central elements as 32-bit integers and prints the median \<open>-1\<close>; the functional
  calculator prints \<open>2147483647\<close>, the average of the two central elements.
\<close>

theorem median_differs_on_overflow:
  "stats_c ''stats'' [''2147483647'', ''2147483647''] =
     \<lparr>stdout = [Count 2, Mean 2147483647, Median (- 1), Mode [2147483647] (Some 2)],
      stderr = [], exit_code = 0\<rparr>
   \<and> stats_ml ''stats'' [''2147483647'', ''2147483647''] =
     \<lparr>stdout = [Count 2, Mean 2147483647, Median 2147483647, Mode [2147483647] None],
      stderr = [], exit_code = 0\<rparr>"
  by (simp add: ml_parser_defs c_parser_defs stats_ml_def stats_c_def describe_def mean_ml_def
      median_def modes_def freq_map_def mean_c_def median_sorted_def modes_from_sorted_def
      modes_loop.simps wrap32_def)

section \<open>Properties of the scheduler\<close>

subsection \<open>Preference normalization and the feasibility check\<close>

lemma push_valid_eq:
  "push_valid ranked vec =
     ranked @ filter (\<lambda>s. s \<in> SHIFT_SET) (map (\<lambda>s. to_lower (trim s)) vec)"
  by (induction vec arbitrary: ranked) (auto simp: Let_def SHIFT_SET_def)

lemma ranked_for_eq:
  "ranked_for per_day day =
     (case per_day day of
        None \<Rightarrow> []
      | Some (PrefString v) \<Rightarrow> filter (\<lambda>s. s \<in> SHIFT_SET) [to_lower (trim v)]
      | Some (PrefVector vec) \<Rightarrow> filter (\<lambda>s. s \<in> SHIFT_SET) (map (\<lambda>s. to_lower (trim s)) vec))"
  by (auto simp: ranked_for_def push_valid_eq Let_def SHIFT_SET_def split: option.splits PrefValue.splits)

lemma set_ranked_for: "set (ranked_for per_day day) \<subseteq> SHIFT_SET"
proof (cases "per_day day")
  case None
  then show ?thesis by (simp add: ranked_for_eq)
next
  case (Some v)
  then show ?thesis by (cases v) (auto simp: ranked_for_eq)
qed

lemma fold_fun_upd:
  "fold (\<lambda>k m. m(k := f k)) ks m d = (if d \<in> set ks then f d else m d)"
  by (induction ks arbitrary: m) auto

lemma normalize_employee_eq:
  "normalize_employee per_day emp_map day =
     (if day \<in> set DAYS then ranked_for per_day day else emp_map day)"
  by (simp add: normalize_employee_def fold_fun_upd)

lemma normalize_entry_apply:
  "normalize_entry (emp, per_day) p e d =
     (if e = emp \<and> d \<in> set DAYS then ranked_for per_day d else p e d)"
  by (simp add: normalize_entry_def normalize_employee_eq)

lemma fold_normalize:
  "fold normalize_entry raw p e d =
     (case map_of (rev raw) e of
        None \<Rightarrow> p e d
      | Some per_day \<Rightarrow> if d \<in> set DAYS then ranked_for per_day d else p e d)"
proof (induction raw arbitrary: p)
  case Nil
  then show ?case by simp
next
  case (Cons x raw)
  obtain emp per_day where x: "x = (emp, per_day)" by (cases x)
  show ?case
    by (simp add: Cons.IH x normalize_entry_apply map_add_def split: option.splits)
qed

lemma normalize_preferences_eq:
  "normalize_preferences raw e d =
     (case map_of (rev raw) e of
        None \<Rightarrow> []
      | Some per_day \<Rightarrow> if d \<in> set DAYS then ranked_for per_day d else [])"
  by (simp add: normalize_preferences_def fold_normalize)

lemma set_normalize_preferences: "set (normalize_preferences raw e d) \<subseteq> SHIFT_SET"
  using set_ranked_for by (auto simp: normalize_preferences_eq split: option.splits)

lemma map_of_rev_distinct: "distinct (map fst xs) \<Longrightarrow> map_of (rev xs) = map_of xs"
  by (rule map_of_inject_set [THEN iffD2]) (auto simp: distinct_map)
 
text \<open>
  C3, as the code has it. For every employee of the raw preference input and each of the
  seven days, the normalized list consists of recognized shift labels only: it is the
  sequence, in input order, of the trimmed and lower-cased labels of the entry that are
  recognized. A single-label entry gives a list of at most one element, unrecognized and
  empty labels are discarded, and a day without entry gives the empty list. Repeated
  labels are kept, and the list of a vector entry may be longer than three.
\<close>

theorem normalized_preference_list:
  assumes "distinct (map fst raw)" and "(emp, per_day) \<in> set raw" and "day \<in> set DAYS"
  shows "set (normalize_preferences raw emp day) \<subseteq> SHIFT_SET \<and>
    normalize_preferences raw emp day =
      (case per_day day of
         None \<Rightarrow> []
       | Some (PrefString v) \<Rightarrow> filter (\<lambda>s. s \<in> SHIFT_SET) [to_lower (trim v)]
       | Some (PrefVector vec) \<Rightarrow>
           filter (\<lambda>s. s \<in> SHIFT_SET) (map (\<lambda>s. to_lower (trim s)) vec))"
proof -
  from assms(1,2) have "map_of (rev raw) emp = Some per_day"
    by (simp add: map_of_rev_distinct)
  with assms(3) show ?thesis
    using set_normalize_preferences [of raw emp day]
    by (simp add: normalize_preferences_eq ranked_for_eq)
qed

lemmas string_defs = to_lower_def tolower_def trim_def ltrim_def rtrim_def isspace_def

theorem normalized_preference_list_witness:
  "normalize_preferences
     [(''Alice'', [''Mon'' \<mapsto> PrefVector ['' Morning'', ''night'', [], ''EVENING ''],
                    ''Tue'' \<mapsto> PrefString ''afternoon'', ''Wed'' \<mapsto> PrefString ''noon''])]
     ''Alice'' ''Mon'' = [''morning'', ''evening'']"
  using normalized_preference_list
    [of "[(''Alice'', [''Mon'' \<mapsto> PrefVector ['' Morning'', ''night'', [], ''EVENING ''],
                    ''Tue'' \<mapsto> PrefString ''afternoon'', ''Wed'' \<mapsto> PrefString ''noon''])]"
        "''Alice''"
        "[''Mon'' \<mapsto> PrefVector ['' Morning'', ''night'', [], ''EVENING ''],
                    ''Tue'' \<mapsto> PrefString ''afternoon'', ''Wed'' \<mapsto> PrefString ''noon'']"
        "''Mon''"]
  by (simp add: DAYS_def string_defs SHIFT_SET_def)

text \<open>
  The claim C3 says that the list has at most three, pairwise distinct labels. A vector
  entry with four times the same label is kept as it is.
\<close>

theorem normalized_preference_counterexample:
  "normalize_preferences
     [(''Alice'', [''Mon'' \<mapsto> PrefVector [''morning'', ''morning'', ''morning'', ''morning'']])]
     ''Alice'' ''Mon'' = [''morning'', ''morning'', ''morning'', ''morning'']
   \<and> \<not> (length (normalize_preferences
     [(''Alice'', [''Mon'' \<mapsto> PrefVector [''morning'', ''morning'', ''morning'', ''morning'']])]
     ''Alice'' ''Mon'') \<le> 3)
   \<and> \<not> distinct (normalize_preferences
     [(''Alice'', [''Mon'' \<mapsto> PrefVector [''morning'', ''morning'', ''morning'', ''morning'']])]
     ''Alice'' ''Mon'')"
  by (simp add: normalize_preferences_def normalize_entry_def normalize_employee_def DAYS_def
      ranked_for_def string_defs SHIFT_SET_def Let_def)

lemma wrap32_id: "- (2 ^ 31) \<le> x \<Longrightarrow> x < 2 ^ 31 \<Longrightarrow> wrap32 x = x"
  by (simp add: wrap32_def signed_take_bit_int_eq_self)

lemma need_more_ceiling:
  assumes "0 < d" and "0 < m"
  shows "tdiv d m + (if tmod d m \<noteq> 0 then 1 else 0) = \<lceil>real_of_int d / real_of_int m\<rceil>"
proof -
  from assms have t: "tdiv d m = d div m" and r: "tmod d m = d mod m"
    by (simp_all add: tdiv_def tmod_def minus_mult_div_eq_mod)
  from assms have "- ((- d) div m) = d div m + (if d mod m \<noteq> 0 then 1 else 0)"
    by (simp add: zdiv_zminus1_eq_if)
  then show ?thesis
    by (simp add: t r ceiling_divide_eq_div)
qed

lemma feasible_or_raise_eq:
  assumes m: "0 < sint (max_days_per_employee cfg)"
    and r: "- (2 ^ 31) \<le> 21 * sint (min_per_shift cfg)" "21 * sint (min_per_shift cfg) < 2 ^ 31"
    and s: "int (length employees) * sint (max_days_per_employee cfg) < 2 ^ 31"
    and e: "employees \<noteq> []"
  shows "feasible_or_raise employees cfg =
    (if int (length employees) * sint (max_days_per_employee cfg) < 21 * sint (min_per_shift cfg)
     then Inl (runtime_error (infeasible_message (21 * sint (min_per_shift cfg))
            (int (length employees) * sint (max_days_per_employee cfg))
            \<lceil>real_of_int (21 * sint (min_per_shift cfg)
                - int (length employees) * sint (max_days_per_employee cfg))
              / real_of_int (sint (max_days_per_employee cfg))\<rceil>))
     else Inr ())"
proof -
  let ?req = "21 * sint (min_per_shift cfg)"
  let ?sup = "int (length employees) * sint (max_days_per_employee cfg)"
  from e have "0 < int (length employees)" by simp
  with m have sup0: "0 < ?sup" by simp
  have req: "wrap32 (int (length DAYS * length SHIFTS) * sint (min_per_shift cfg)) = ?req"
    using r by (simp add: DAYS_def SHIFTS_def wrap32_id)
  have sup: "wrap32 ?sup = ?sup"
    using s sup0 by (simp add: wrap32_id)
  show ?thesis
  proof (cases "?sup < ?req")
    case True
    then have d: "0 < ?req - ?sup" "?req - ?sup < 2 ^ 31"
      using sup0 r by simp_all
    then have w: "wrap32 (?req - ?sup) = ?req - ?sup"
      by (simp add: wrap32_id)
    from d(1) have ne: "?req - ?sup \<noteq> - (2 ^ 31)" by simp
    show ?thesis
      unfolding feasible_or_raise_def req sup Let_def w
      using True m ne need_more_ceiling [OF d(1) m] by simp
  next
    case False
    then show ?thesis
      unfolding feasible_or_raise_def req sup Let_def by simp
  qed
qed

lemma schedule_employees_returns:
  "unique_cleaned emps \<noteq> [] \<Longrightarrow> feasible_or_raise (unique_cleaned emps) cfg = Inr () \<Longrightarrow>
   \<exists>r. schedule_employees lib emps raw cfg = Inr r"
  by (simp add: schedule_employees_def Let_def split: prod.splits)

text \<open>
  C2, as the code has it. When the cleaned employee list is not empty,
  \<open>max_days_per_employee\<close> is positive and the two products fit an \<open>int\<close>,
  \<open>schedule_employees\<close> raises the Infeasible error exactly when the number of cleaned
  employees times \<open>max_days_per_employee\<close> is less than \<open>7 * 3 * min_per_shift\<close>, and
  the message then reports that required total, that supply, and the ceiling of the
  deficit divided by \<open>max_days_per_employee\<close>. With one employee and the default
  configuration the numbers are 42, 5 and 8 (the witness).
\<close>

theorem feasibility_check:
  assumes "unique_cleaned emps \<noteq> []"
    and "0 < sint (max_days_per_employee cfg)"
    and "- (2 ^ 31) \<le> 21 * sint (min_per_shift cfg)"
    and "21 * sint (min_per_shift cfg) < 2 ^ 31"
    and "int (length (unique_cleaned emps)) * sint (max_days_per_employee cfg) < 2 ^ 31"
  shows "((\<exists>msg. schedule_employees lib emps raw cfg = Inl (runtime_error msg)) \<longleftrightarrow>
      int (length (unique_cleaned emps)) * sint (max_days_per_employee cfg)
        < 7 * 3 * sint (min_per_shift cfg))
    \<and> (int (length (unique_cleaned emps)) * sint (max_days_per_employee cfg)
        < 7 * 3 * sint (min_per_shift cfg) \<longrightarrow>
       schedule_employees lib emps raw cfg =
         Inl (runtime_error (infeasible_message (7 * 3 * sint (min_per_shift cfg))
           (int (length (unique_cleaned emps)) * sint (max_days_per_employee cfg))
           \<lceil>real_of_int (7 * 3 * sint (min_per_shift cfg)
               - int (length (unique_cleaned emps)) * sint (max_days_per_employee cfg))
             / real_of_int (sint (max_days_per_employee cfg))\<rceil>)))"
proof (cases "int (length (unique_cleaned emps)) * sint (max_days_per_employee cfg)
        < 21 * sint (min_per_shift cfg)")
  case True
  with assms show ?thesis
    by (simp add: schedule_employees_def Let_def feasible_or_raise_eq)
next
  case False
  with assms have "feasible_or_raise (unique_cleaned emps) cfg = Inr ()"
    by (simp add: feasible_or_raise_eq)
  with assms(1) obtain r where "schedule_employees lib emps raw cfg = Inr r"
    using schedule_employees_returns by blast
  with False show ?thesis by simp
qed

theorem feasibility_check_witness:
  "schedule_employees rotating_lib [''Alice''] [] default_Config =
     Inl (runtime_error (''Infeasible: need at least 42 total shift assignments, ''
       @ ''but employee supply caps at 5. Consider adding ~8''
       @ '' more employees or increasing max_days_per_employee.''))"
proof -
  have u: "unique_cleaned [''Alice''] = [''Alice'']"
    by (simp add: unique_cleaned_def string_defs)
  show ?thesis
    using feasibility_check [of "[''Alice'']" default_Config rotating_lib "[]"]
    by (simp add: u default_Config_def infeasible_message_def to_string_def digit_char_def)
qed

text \<open>
  The claim C2 says that the Infeasible error is raised whenever the supply is less than
  the required total. With no employee the supply 0 is less than 42, and the error is the
  invalid-argument error of the guard before the feasibility check.
\<close>

theorem feasibility_check_counterexample:
  "int (length (unique_cleaned [])) * sint (max_days_per_employee default_Config)
     < 7 * 3 * sint (min_per_shift default_Config)
   \<and> schedule_employees rotating_lib [] [] default_Config =
       Inl (invalid_argument ''No employees provided.'')"
  by (simp add: schedule_employees_def unique_cleaned_def default_Config_def)

subsection \<open>The scheduling passes keep the invariants\<close>

lemma in_SHIFTS: "s \<in> set SHIFTS \<longleftrightarrow> s \<in> SHIFT_SET"
  by (simp add: SHIFTS_def SHIFT_SET_def)

lemma roster_place:
  "shift \<in> set SHIFTS \<Longrightarrow>
   set (roster (place emp day shift st) d) = (if d = day then insert emp (set (roster st d)) else set (roster st d))"
  by (auto simp: roster_def place_def SHIFTS_def)

lemma distinct_roster_place:
  "shift \<in> set SHIFTS \<Longrightarrow> distinct (roster st d) \<Longrightarrow> emp \<notin> set (roster st day) \<Longrightarrow>
   distinct (roster (place emp day shift st) d)"
  by (auto simp: roster_def place_def SHIFTS_def)

lemma days_of_place:
  "day \<in> set DAYS \<Longrightarrow> emp \<notin> assigned_on_day st day \<Longrightarrow>
   {d \<in> set DAYS. e \<in> assigned_on_day (place emp day shift st) d} =
     (if e = emp then insert day {d \<in> set DAYS. e \<in> assigned_on_day st d}
      else {d \<in> set DAYS. e \<in> assigned_on_day st d})"
  by (auto simp: place_def)

lemma consistent_place:
  assumes c: "consistent cfg st" and d: "day \<in> set DAYS" and s: "shift \<in> set SHIFTS"
    and free: "emp \<notin> assigned_on_day st day"
    and cap: "days_worked st emp < sint (max_days_per_employee cfg)"
  shows "consistent cfg (place emp day shift st)"
proof -
  from c free have nr: "emp \<notin> set (roster st day)"
    by (simp add: consistent_def)
  have a: "assigned_on_day (place emp day shift st) d =
      (if d = day then insert emp (assigned_on_day st d) else assigned_on_day st d)" for d
    by (simp add: place_def)
  have w: "days_worked (place emp day shift st) e =
      (if e = emp then days_worked st e + 1 else days_worked st e)" for e
    by (simp add: place_def)
  have fin: "finite {d \<in> set DAYS. e \<in> assigned_on_day st d}" for e
    by simp
  have notin: "day \<notin> {d \<in> set DAYS. emp \<in> assigned_on_day st d}"
    using free by simp
  have "\<forall>d. distinct (roster (place emp day shift st) d)
      \<and> set (roster (place emp day shift st) d) = assigned_on_day (place emp day shift st) d"
    using c s nr by (auto simp: consistent_def roster_place distinct_roster_place a)
  moreover have "\<forall>e. days_worked (place emp day shift st) e =
      int (card {d \<in> set DAYS. e \<in> assigned_on_day (place emp day shift st) d})"
    using c notin by (simp add: consistent_def days_of_place [OF d free] w)
  moreover have "\<forall>e. days_worked (place emp day shift st) e \<le> sint (max_days_per_employee cfg)"
  proof
    fix e
    from c have "days_worked st e \<le> sint (max_days_per_employee cfg)"
      unfolding consistent_def by blast
    with cap show "days_worked (place emp day shift st) e \<le> sint (max_days_per_employee cfg)"
      by (simp add: w)
  qed
  ultimately show ?thesis
    by (simp add: consistent_def)
qed

lemma within_cap_place:
  "within_cap cfg st \<Longrightarrow>
   (0 < sint (max_per_shift cfg) \<Longrightarrow> int (length (sched st day shift)) < sint (max_per_shift cfg)) \<Longrightarrow>
   within_cap cfg (place emp day shift st)"
  by (auto simp: within_cap_def place_def)

lemma fold_preserves:
  "P s \<Longrightarrow> (\<And>x s. x \<in> set xs \<Longrightarrow> P s \<Longrightarrow> P (f x s)) \<Longrightarrow> P (fold f xs s)"
  by (induction xs arbitrary: s) auto

lemma find_Some_holds: "find P xs = Some x \<Longrightarrow> P x \<and> x \<in> set xs"
  by (induction xs) (auto split: if_splits)

lemma consistent_try_rank:
  "consistent cfg st \<Longrightarrow> day \<in> set DAYS \<Longrightarrow> consistent cfg (try_rank cfg prefs day rank emp st)"
  by (auto simp: try_rank_def Let_def in_SHIFTS intro!: consistent_place)

lemma within_cap_try_rank:
  "within_cap cfg st \<Longrightarrow> within_cap cfg (try_rank cfg prefs day rank emp st)"
  by (auto simp: try_rank_def Let_def shift_has_capacity_def intro!: within_cap_place split: if_splits)

lemma consistent_carry [simp]:
  "consistent cfg (st\<lparr>carry_over_next_day := c\<rparr>) = consistent cfg st"
  by (simp add: consistent_def roster_def)

lemma within_cap_carry [simp]:
  "within_cap cfg (st\<lparr>carry_over_next_day := c\<rparr>) = within_cap cfg st"
  by (simp add: within_cap_def)

lemma consistent_warnings [simp]:
  "consistent cfg (st\<lparr>warnings := w\<rparr>) = consistent cfg st"
  by (simp add: consistent_def roster_def)

lemma within_cap_warnings [simp]:
  "within_cap cfg (st\<lparr>warnings := w\<rparr>) = within_cap cfg st"
  by (simp add: within_cap_def)

lemma consistent_fallback:
  assumes "consistent cfg st" and "day \<in> set DAYS" and "\<forall>e d. set (prefs e d) \<subseteq> SHIFT_SET"
  shows "consistent cfg (fallback cfg prefs di day emp st)"
proof -
  have "s \<in> set SHIFTS"
    if "find (\<lambda>s. shift_has_capacity cfg st day s)
          (prefs emp day @ filter (\<lambda>s. s \<notin> set (prefs emp day)) SHIFTS) = Some s" for s
    using find_Some_holds [OF that] assms(3) by (auto simp: in_SHIFTS)
  with assms(1,2) show ?thesis
    by (auto simp: fallback_def Let_def intro!: consistent_place split: option.splits)
qed

lemma within_cap_fallback:
  "within_cap cfg st \<Longrightarrow> within_cap cfg (fallback cfg prefs di day emp st)"
  by (auto simp: fallback_def Let_def shift_has_capacity_def intro!: within_cap_place
      split: option.splits if_splits dest!: find_Some_holds)

lemma consistent_schedule_day:
  assumes "consistent cfg st" and "di < length DAYS" and "\<forall>e d. set (prefs e d) \<subseteq> SHIFT_SET"
  shows "consistent cfg (schedule_day cfg prefs employees di st)"
  unfolding schedule_day_def Let_def
  using assms
  by (intro fold_preserves [where P = "consistent cfg"] consistent_fallback consistent_try_rank)
    simp_all

lemma within_cap_schedule_day:
  "within_cap cfg st \<Longrightarrow> within_cap cfg (schedule_day cfg prefs employees di st)"
  unfolding schedule_day_def Let_def
  by (intro fold_preserves [where P = "within_cap cfg"] within_cap_fallback within_cap_try_rank)

lemma consistent_backfill_loop:
  assumes "day \<in> set DAYS" and "shift \<in> set SHIFTS"
  shows "consistent cfg st \<Longrightarrow> distinct cands \<Longrightarrow>
    \<forall>c \<in> set cands. c \<notin> assigned_on_day st day
      \<and> days_worked st c < sint (max_days_per_employee cfg) \<Longrightarrow>
    consistent cfg (backfill_loop cfg day shift need added cands st)"
proof (induction cands arbitrary: st added)
  case Nil
  then show ?case by simp
next
  case (Cons emp cands)
  have placed: "consistent cfg (place emp day shift st)"
    using Cons.prems assms by (auto intro: consistent_place)
  have rest: "\<forall>c \<in> set cands. c \<notin> assigned_on_day (place emp day shift st) day
      \<and> days_worked (place emp day shift st) c < sint (max_days_per_employee cfg)"
    using Cons.prems by (auto simp: place_def)
  from Cons.prems have "distinct cands" by simp
  from Cons.IH [OF placed this rest] placed Cons.prems(1) show ?case
    by (simp add: Let_def)
qed

lemma within_cap_backfill_loop:
  "within_cap cfg st \<Longrightarrow> within_cap cfg (backfill_loop cfg day shift need added cands st)"
proof (induction cands arbitrary: st added)
  case Nil
  then show ?case by simp
next
  case (Cons emp cands)
  show ?case
  proof (cases "sint (max_per_shift cfg) > 0
      \<and> int (length (sched st day shift)) \<ge> sint (max_per_shift cfg)")
    case True
    with Cons.prems show ?thesis by simp
  next
    case False
    then have p: "within_cap cfg (place emp day shift st)"
      using Cons.prems by (intro within_cap_place) auto
    have "within_cap cfg (backfill_loop cfg day shift need (added + 1) cands (place emp day shift st))"
      by (rule Cons.IH [OF p])
    with p False show ?thesis
      by (auto simp: Let_def)
  qed
qed

lemma backfill_loop_sched_other:
  "(d, s) \<noteq> (day, shift) \<Longrightarrow>
   sched (backfill_loop cfg day shift need added cands st) d s = sched st d s"
  by (induction cands arbitrary: st added) (auto simp: Let_def place_def)

lemma backfill_loop_warnings:
  "warnings (backfill_loop cfg day shift need added cands st) = warnings st"
  by (induction cands arbitrary: st added) (auto simp: Let_def place_def)

lemma set_slots: "set slots = set DAYS \<times> set SHIFTS"
  by (auto simp: slots_def)

lemma distinct_slots: "distinct slots"
  by (simp add: slots_def DAYS_def SHIFTS_def)

lemma consistent_backfill_slot:
  assumes perm: "\<forall>g xs. mset (fst (shuffle lib g xs)) = mset xs"
    and emps: "distinct employees"
    and slot: "slot \<in> set slots"
    and c: "consistent cfg st"
  shows "consistent cfg (fst (backfill_slot lib cfg employees slot (st, g)))"
proof -
  obtain day shift where ds: "slot = (day, shift)" by (cases slot)
  with slot have day: "day \<in> set DAYS" and shift: "shift \<in> set SHIFTS"
    by (simp_all add: set_slots)
  let ?cands = "filter (\<lambda>e. e \<notin> assigned_on_day st day
      \<and> days_worked st e < sint (max_days_per_employee cfg)) employees"
  obtain shuffled g' where sh: "shuffle lib g ?cands = (shuffled, g')"
    by (cases "shuffle lib g ?cands")
  from perm have "mset (fst (shuffle lib g ?cands)) = mset ?cands"
    by blast
  then have m: "mset shuffled = mset ?cands"
    by (simp add: sh)
  from emps have "distinct ?cands" by simp
  with m have d: "distinct shuffled"
    using mset_eq_imp_distinct_iff by blast
  from m have "set shuffled = set ?cands"
    by (rule mset_eq_setD)
  then have free: "\<forall>c \<in> set shuffled. c \<notin> assigned_on_day st day
      \<and> days_worked st c < sint (max_days_per_employee cfg)"
    by simp
  have "consistent cfg (backfill_loop cfg day shift need 0 shuffled st)" for need
    by (rule consistent_backfill_loop [OF day shift c d free])
  with c show ?thesis
    by (simp add: backfill_slot_def ds Let_def sh)
qed

lemma within_cap_backfill_slot:
  "within_cap cfg st \<Longrightarrow> within_cap cfg (fst (backfill_slot lib cfg employees slot (st, g)))"
  by (cases slot)
    (auto simp: backfill_slot_def Let_def within_cap_backfill_loop split: prod.splits)

lemma wrap32_nonpos:
  assumes "0 \<le> h" and "wrap32 (sint (m :: 32 word) - h) \<le> 0"
  shows "sint m \<le> h"
proof (rule ccontr)
  assume "\<not> sint m \<le> h"
  moreover have "sint m < 2 ^ 31"
    using sint_lt [of m] by simp
  ultimately have "0 < sint m - h" and "sint m - h < 2 ^ 31"
    using assms(1) by simp_all
  then have "wrap32 (sint m - h) = sint m - h"
    by (simp add: wrap32_id)
  with \<open>0 < sint m - h\<close> assms(2) show False by simp
qed

lemma backfill_slot_sched_other:
  "backfill_slot lib cfg employees (day, shift) (st, g) = (st', g') \<Longrightarrow>
   (d, s) \<noteq> (day, shift) \<Longrightarrow> sched st' d s = sched st d s"
  by (auto simp: backfill_slot_def Let_def backfill_loop_sched_other
      split: if_splits prod.splits)

lemma backfill_slot_warnings_mono:
  "backfill_slot lib cfg employees (day, shift) (st, g) = (st', g') \<Longrightarrow>
   set (warnings st) \<subseteq> set (warnings st')"
  by (auto simp: backfill_slot_def Let_def backfill_loop_warnings split: if_splits prod.splits)

lemma backfill_slot_warns:
  assumes "backfill_slot lib cfg employees (day, shift) (st, g) = (st', g')"
    and low: "int (length (sched st' day shift)) < sint (min_per_shift cfg)"
  shows "min_staffing_warning day shift (length (sched st' day shift)) (sint (min_per_shift cfg))
      \<in> set (warnings st')"
proof (cases "wrap32 (sint (min_per_shift cfg) - int (length (sched st day shift))) \<le> 0")
  case True
  then have "st' = st"
    using assms(1) by (simp add: backfill_slot_def Let_def)
  moreover from True have "sint (min_per_shift cfg) \<le> int (length (sched st day shift))"
    by (intro wrap32_nonpos) simp_all
  ultimately show ?thesis using low by simp
next
  case False
  with assms show ?thesis
    by (auto simp: backfill_slot_def Let_def split: if_splits prod.splits)
qed

lemma backfill_fold_sched_other:
  "fold (backfill_slot lib cfg employees) xs (st, g) = (st', g') \<Longrightarrow> (d, s) \<notin> set xs \<Longrightarrow>
   sched st' d s = sched st d s"
proof (induction xs arbitrary: st g)
  case Nil
  then show ?case by simp
next
  case (Cons x xs)
  obtain day shift where x: "x = (day, shift)" by (cases x)
  obtain st1 g1 where one: "backfill_slot lib cfg employees (day, shift) (st, g) = (st1, g1)"
    by (cases "backfill_slot lib cfg employees (day, shift) (st, g)")
  from Cons.prems(1) have rest: "fold (backfill_slot lib cfg employees) xs (st1, g1) = (st', g')"
    by (simp add: x one)
  from Cons.prems(2) have "(d, s) \<notin> set xs" and ne: "(d, s) \<noteq> (day, shift)"
    by (simp_all add: x)
  then have "sched st' d s = sched st1 d s"
    using Cons.IH [OF rest] by blast
  also have "\<dots> = sched st d s"
    by (rule backfill_slot_sched_other [OF one ne])
  finally show ?case .
qed

lemma backfill_fold_warnings_mono:
  "fold (backfill_slot lib cfg employees) xs (st, g) = (st', g') \<Longrightarrow>
   set (warnings st) \<subseteq> set (warnings st')"
proof (induction xs arbitrary: st g)
  case Nil
  then show ?case by simp
next
  case (Cons x xs)
  obtain day shift where x: "x = (day, shift)" by (cases x)
  obtain st1 g1 where one: "backfill_slot lib cfg employees (day, shift) (st, g) = (st1, g1)"
    by (cases "backfill_slot lib cfg employees (day, shift) (st, g)")
  from Cons.prems(1) have rest: "fold (backfill_slot lib cfg employees) xs (st1, g1) = (st', g')"
    by (simp add: x one)
  have "set (warnings st) \<subseteq> set (warnings st1)"
    by (rule backfill_slot_warnings_mono [OF one])
  also have "\<dots> \<subseteq> set (warnings st')"
    by (rule Cons.IH [OF rest])
  finally show ?case .
qed

lemma backfill_fold_warns:
  "distinct xs \<Longrightarrow> fold (backfill_slot lib cfg employees) xs (st, g) = (st', g') \<Longrightarrow>
   (d, s) \<in> set xs \<Longrightarrow> int (length (sched st' d s)) < sint (min_per_shift cfg) \<Longrightarrow>
   min_staffing_warning d s (length (sched st' d s)) (sint (min_per_shift cfg))
     \<in> set (warnings st')"
proof (induction xs arbitrary: st g)
  case Nil
  then show ?case by simp
next
  case (Cons x xs)
  obtain day shift where x: "x = (day, shift)" by (cases x)
  obtain st1 g1 where one: "backfill_slot lib cfg employees (day, shift) (st, g) = (st1, g1)"
    by (cases "backfill_slot lib cfg employees (day, shift) (st, g)")
  from Cons.prems(2) have rest: "fold (backfill_slot lib cfg employees) xs (st1, g1) = (st', g')"
    by (simp add: x one)
  from Cons.prems(1) have dist: "distinct xs" and fresh: "(day, shift) \<notin> set xs"
    by (simp_all add: x)
  show ?case
  proof (cases "(d, s) = (day, shift)")
    case True
    have same: "sched st' day shift = sched st1 day shift"
      by (rule backfill_fold_sched_other [OF rest fresh])
    with Cons.prems(4) True
    have "int (length (sched st1 day shift)) < sint (min_per_shift cfg)"
      by simp
    then have "min_staffing_warning day shift (length (sched st1 day shift))
        (sint (min_per_shift cfg)) \<in> set (warnings st1)"
      by (rule backfill_slot_warns [OF one])
    moreover have "set (warnings st1) \<subseteq> set (warnings st')"
      by (rule backfill_fold_warnings_mono [OF rest])
    ultimately show ?thesis
      using True same by auto
  next
    case False
    with Cons.prems(3) have "(d, s) \<in> set xs"
      by (auto simp: x)
    then show ?thesis
      by (rule Cons.IH [OF dist rest _ Cons.prems(4)])
  qed
qed

lemma enforce_slot_id:
  assumes "within_cap cfg st"
  shows "enforce_slot cfg day shift st = st"
proof -
  have "\<not> (0 < sint (max_per_shift cfg)
      \<and> int (length (sched st day shift)) > sint (max_per_shift cfg))"
    using assms unfolding within_cap_def by (meson not_less)
  then show ?thesis
    by (subst enforce_slot.simps) auto
qed

lemma enforce_all_id:
  "within_cap cfg st \<Longrightarrow> fold (\<lambda>(day, shift). enforce_slot cfg day shift) xs st = st"
  by (induction xs) (auto simp: enforce_slot_id)

lemma distinct_unique_cleaned_loop:
  "distinct out \<Longrightarrow> distinct (unique_cleaned_loop names out (set out))"
proof (induction names arbitrary: out)
  case Nil
  then show ?case by simp
next
  case (Cons n names)
  show ?case
  proof (cases "trim n = [] \<or> trim n \<in> set out")
    case True
    with Cons show ?thesis by (auto simp: Let_def)
  next
    case False
    with Cons.prems have "distinct (out @ [trim n])" by simp
    from Cons.IH [OF this] False show ?thesis
      by (simp add: Let_def)
  qed
qed

lemma distinct_unique_cleaned: "distinct (unique_cleaned names)"
  using distinct_unique_cleaned_loop [of "[]" names] by (simp add: unique_cleaned_def)

lemma within_cap_init: "within_cap cfg init_state"
  by (simp add: within_cap_def init_state_def empty_schedule_def)

lemma consistent_init: "0 \<le> sint (max_days_per_employee cfg) \<Longrightarrow> consistent cfg init_state"
  by (simp add: consistent_def init_state_def empty_schedule_def roster_def SHIFTS_def)

subsection \<open>The returned schedule\<close>

lemma schedule_employees_run:
  assumes "schedule_employees lib emps raw cfg = Inr (sch, ws)"
  obtains st g where
    "fold (backfill_slot lib cfg (unique_cleaned emps)) slots
       (fold (schedule_day cfg (normalize_preferences raw) (unique_cleaned emps))
          [0..<length DAYS] init_state, mt19937 lib (random_seed cfg)) = (st, g)"
    and "sch = sched st" and "ws = warnings st"
proof -
  let ?E = "unique_cleaned emps"
  let ?st1 = "fold (schedule_day cfg (normalize_preferences raw) ?E) [0..<length DAYS] init_state"
  obtain st g where run: "fold (backfill_slot lib cfg ?E) slots
      (?st1, mt19937 lib (random_seed cfg)) = (st, g)"
    by (cases "fold (backfill_slot lib cfg ?E) slots (?st1, mt19937 lib (random_seed cfg))")
  have "within_cap cfg ?st1"
    by (intro fold_preserves [where P = "within_cap cfg"] within_cap_init within_cap_schedule_day)
  then have "within_cap cfg (fst (fold (backfill_slot lib cfg ?E) slots
      (?st1, mt19937 lib (random_seed cfg))))"
    by (intro fold_preserves [where P = "\<lambda>sr. within_cap cfg (fst sr)"])
      (auto intro: within_cap_backfill_slot)
  then have cap: "within_cap cfg st"
    by (simp add: run)
  from assms have "sch = sched st \<and> ws = warnings st"
    by (auto simp: schedule_employees_def Let_def run enforce_all_id [OF cap]
        split: if_splits sum.splits)
  with run that show ?thesis by blast
qed

lemma consistent_run:
  assumes perm: "\<forall>g xs. mset (fst (shuffle lib g xs)) = mset xs"
    and cap: "0 \<le> sint (max_days_per_employee cfg)"
    and run: "fold (backfill_slot lib cfg (unique_cleaned emps)) slots
       (fold (schedule_day cfg (normalize_preferences raw) (unique_cleaned emps))
          [0..<length DAYS] init_state, g0) = (st, g)"
  shows "consistent cfg st"
proof -
  let ?E = "unique_cleaned emps"
  let ?st1 = "fold (schedule_day cfg (normalize_preferences raw) ?E) [0..<length DAYS] init_state"
  have valid: "\<forall>e d. set (normalize_preferences raw e d) \<subseteq> SHIFT_SET"
    by (simp add: set_normalize_preferences)
  have "consistent cfg ?st1"
    using cap valid
    by (intro fold_preserves [where P = "consistent cfg"] consistent_init consistent_schedule_day)
      simp_all
  then have "consistent cfg (fst (fold (backfill_slot lib cfg ?E) slots (?st1, g0)))"
    using perm distinct_unique_cleaned [of emps]
    by (intro fold_preserves [where P = "\<lambda>sr. consistent cfg (fst sr)"])
      (auto intro: consistent_backfill_slot)
  then show ?thesis
    by (simp add: run)
qed

lemma count_list_distinct: "distinct xs \<Longrightarrow> count_list xs e = (if e \<in> set xs then 1 else 0)"
  by (induction xs) auto

lemma sum_list_indicator:
  "distinct xs \<Longrightarrow> (\<Sum>x\<leftarrow>xs. if P x then 1 else 0) = int (card {x \<in> set xs. P x})"
proof (induction xs)
  case Nil
  then show ?case by simp
next
  case (Cons a xs)
  have "{x \<in> set (a # xs). P x} = (if P a then insert a {x \<in> set xs. P x} else {x \<in> set xs. P x})"
    by auto
  with Cons show ?case by simp
qed

lemma consistent_total:
  assumes "consistent cfg st"
  shows "(\<Sum>day\<leftarrow>DAYS. \<Sum>shift\<leftarrow>SHIFTS. int (count_list (sched st day shift) e))
    = days_worked st e"
proof -
  have inner: "(\<Sum>shift\<leftarrow>SHIFTS. int (count_list (sched st day shift) e))
      = (if e \<in> assigned_on_day st day then 1 else 0)" for day
  proof -
    have "(\<Sum>shift\<leftarrow>SHIFTS. int (count_list (sched st day shift) e))
        = int (count_list (roster st day) e)"
      by (simp add: roster_def SHIFTS_def)
    also have "\<dots> = (if e \<in> set (roster st day) then 1 else 0)"
      using assms by (simp add: consistent_def count_list_distinct)
    finally show ?thesis
      using assms by (simp add: consistent_def)
  qed
  have "(\<Sum>day\<leftarrow>DAYS. \<Sum>shift\<leftarrow>SHIFTS. int (count_list (sched st day shift) e))
      = (\<Sum>day\<leftarrow>DAYS. if e \<in> assigned_on_day st day then 1 else 0)"
    by (simp only: inner)
  also have "\<dots> = int (card {day \<in> set DAYS. e \<in> assigned_on_day st day})"
    by (rule sum_list_indicator) (simp add: DAYS_def)
  finally show ?thesis
    using assms by (simp add: consistent_def)
qed

lemma mset_rotate1_eq: "mset (rotate1 xs) = mset xs"
  by (cases xs) simp_all

lemma mset_rotate_eq: "mset (rotate n xs) = mset xs"
  by (induction n) (simp_all add: mset_rotate1_eq)

lemma rotating_lib_permutes: "\<forall>g xs. mset (fst (shuffle rotating_lib g xs)) = mset xs"
  by (simp add: rotating_lib_def mset_rotate_eq)

lemma lenient_run:
  "case schedule_employees rotating_lib [''Alice''] [] lenient_Config of
   Inl e \<Rightarrow> False
 | Inr (sch, ws) \<Rightarrow> sch ''Mon'' ''morning'' = [''Alice''] \<and> sch ''Mon'' ''afternoon'' = []
     \<and> sch ''Mon'' ''evening'' = []"
  by code_simp

text \<open>
  C1, as the code has it. When \<open>max_days_per_employee\<close> is not negative (and the
  library's shuffle returns a permutation of its argument), every schedule that
  \<open>schedule_employees\<close> returns has every employee in at most one shift per day, and
  every employee's number of shift-slots over the week is at most
  \<open>max_days_per_employee\<close>. No exception for an overflow is needed: no slot ever holds
  more than \<open>max_per_shift\<close> employees, so the relocation loop never runs.
\<close>

theorem one_shift_per_day_and_weekly_cap:
  assumes "\<forall>g xs. mset (fst (shuffle lib g xs)) = mset xs"
    and "0 \<le> sint (max_days_per_employee cfg)"
    and "schedule_employees lib emps raw cfg = Inr (sch, ws)"
  shows "distinct (concat (map (sch day) SHIFTS))
    \<and> (\<Sum>day\<leftarrow>DAYS. \<Sum>shift\<leftarrow>SHIFTS. int (count_list (sch day shift) emp))
        \<le> sint (max_days_per_employee cfg)"
proof -
  from assms(3) obtain st g where
    run: "fold (backfill_slot lib cfg (unique_cleaned emps)) slots
       (fold (schedule_day cfg (normalize_preferences raw) (unique_cleaned emps))
          [0..<length DAYS] init_state, mt19937 lib (random_seed cfg)) = (st, g)"
    and sch: "sch = sched st"
    by (rule schedule_employees_run)
  have c: "consistent cfg st"
    by (rule consistent_run [OF assms(1,2) run])
  then have "distinct (roster st day)" and "days_worked st emp \<le> sint (max_days_per_employee cfg)"
    unfolding consistent_def by blast+
  then show ?thesis
    by (simp add: sch consistent_total [OF c] roster_def)
qed

theorem one_shift_per_day_and_weekly_cap_witness:
  "\<exists>sch ws. schedule_employees rotating_lib [''Alice''] [] lenient_Config = Inr (sch, ws)
   \<and> sch ''Mon'' ''morning'' = [''Alice''] \<and> sch ''Mon'' ''afternoon'' = []
   \<and> sch ''Mon'' ''evening'' = []
   \<and> distinct (concat (map (sch ''Mon'') SHIFTS))
    \<and> (\<Sum>day\<leftarrow>DAYS. \<Sum>shift\<leftarrow>SHIFTS. int (count_list (sch day shift) ''Alice'')) \<le> 21"
proof -
  obtain sch ws where r: "schedule_employees rotating_lib [''Alice''] [] lenient_Config = Inr (sch, ws)"
    using lenient_run by (auto split: sum.splits)
  note p = rotating_lib_permutes
  have m: "0 \<le> sint (max_days_per_employee lenient_Config)"
    by (simp add: lenient_Config_def)
  from lenient_run r have "sch ''Mon'' ''morning'' = [''Alice''] \<and> sch ''Mon'' ''afternoon'' = []
     \<and> sch ''Mon'' ''evening'' = []"
    by simp
  with r one_shift_per_day_and_weekly_cap [OF p m r, of "''Mon''" "''Alice''"] show ?thesis
    by (simp add: lenient_Config_def)
qed

text \<open>
  The claim C1 bounds every employee's number of shift-slots by
  \<open>max_days_per_employee\<close> on every input that returns. With \<open>min_per_shift = -1\<close> and
  \<open>max_days_per_employee = -1\<close> the feasibility check passes, the schedule returned is
  empty and there is no warning: the employee's zero slots are more than \<open>-1\<close>.
\<close>

theorem weekly_cap_counterexample:
  "\<not> isl (schedule_employees rotating_lib [''A''] [] negative_Config)
   \<and> snd (projr (schedule_employees rotating_lib [''A''] [] negative_Config)) = []
   \<and> \<not> (\<Sum>day\<leftarrow>DAYS. \<Sum>shift\<leftarrow>SHIFTS.
          int (count_list (fst (projr (schedule_employees rotating_lib [''A''] [] negative_Config)) day shift)
                ''A''))
        \<le> sint (max_days_per_employee negative_Config)"
  by code_simp

text \<open>
  C4, as the code has it. For every input on which \<open>schedule_employees\<close> returns, every
  slot of a day and a shift whose final list has fewer than \<open>min_per_shift\<close> employees
  has its warning in the returned list, naming the day, the shift, the actual count and
  the required count.
\<close>

theorem understaffed_slot_has_warning:
  assumes "schedule_employees lib emps raw cfg = Inr (sch, ws)"
    and "day \<in> set DAYS" and "shift \<in> set SHIFTS"
    and "int (length (sch day shift)) < sint (min_per_shift cfg)"
  shows "min_staffing_warning day shift (length (sch day shift)) (sint (min_per_shift cfg))
    \<in> set ws"
proof -
  from assms(1) obtain st g where
    run: "fold (backfill_slot lib cfg (unique_cleaned emps)) slots
       (fold (schedule_day cfg (normalize_preferences raw) (unique_cleaned emps))
          [0..<length DAYS] init_state, mt19937 lib (random_seed cfg)) = (st, g)"
    and sch: "sch = sched st" and ws: "ws = warnings st"
    by (rule schedule_employees_run)
  from assms(2,3) have "(day, shift) \<in> set slots"
    by (simp add: set_slots)
  from backfill_fold_warns [OF distinct_slots run this] assms(4) show ?thesis
    by (simp add: sch ws)
qed

theorem understaffed_slot_has_warning_witness:
  "\<exists>sch ws. schedule_employees rotating_lib [''Alice''] [] lenient_Config = Inr (sch, ws)
   \<and> sch ''Mon'' ''afternoon'' = []
   \<and> ''Warning: Could not meet min staffing for Mon afternoon (0/1). Consider more staff or relaxing caps.''
       \<in> set ws"
proof -
  obtain sch ws where r: "schedule_employees rotating_lib [''Alice''] [] lenient_Config = Inr (sch, ws)"
    using lenient_run by (auto split: sum.splits)
  from lenient_run r have e: "sch ''Mon'' ''afternoon'' = []"
    by simp
  have "min_staffing_warning ''Mon'' ''afternoon'' (length (sch ''Mon'' ''afternoon''))
      (sint (min_per_shift lenient_Config)) \<in> set ws"
    by (rule understaffed_slot_has_warning [OF r]) (simp_all add: DAYS_def SHIFTS_def e lenient_Config_def)
  with r e show ?thesis
    by (simp add: min_staffing_warning_def to_string_def digit_char_def lenient_Config_def)
qed

text \<open>
  The claim C4 takes the employees A, B, C, D with the default configuration as an input
  whose 21 slots end staffed or warned. On that input the supply 20 is less than the
  required 42, and \<open>schedule_employees\<close> raises the Infeasible error: no schedule is
  returned.
\<close>

theorem four_employees_counterexample:
  "schedule_employees rotating_lib [''A'', ''B'', ''C'', ''D''] [] default_Config =
   Inl (runtime_error (''Infeasible: need at least 42 total shift assignments, ''
       @ ''but employee supply caps at 20. Consider adding ~5''
       @ '' more employees or increasing max_days_per_employee.''))"
  by (simp add: schedule_employees_def unique_cleaned_def string_defs feasible_or_raise_def
      default_Config_def DAYS_def SHIFTS_def wrap32_def tdiv_def tmod_def infeasible_message_def
      to_string_def digit_char_def)

text \<open>
  C5. \<open>schedule_employees\<close> is deterministic: its result is a function of the employee
  list, the raw preferences as a map, and the configuration with its seed. In particular
  two runs on the same raw preferences give the same schedule and the same warnings,
  whatever the order in which the map of raw preferences is iterated.
\<close>

theorem schedule_deterministic:
  assumes "distinct (map fst raw1)" and "distinct (map fst raw2)"
    and "map_of raw1 = map_of raw2"
  shows "schedule_employees lib emps raw1 cfg = schedule_employees lib emps raw2 cfg"
proof -
  have "normalize_preferences raw1 e d = normalize_preferences raw2 e d" for e d
    using assms by (simp add: normalize_preferences_eq map_of_rev_distinct)
  then have same: "normalize_preferences raw1 = normalize_preferences raw2"
    by (intro ext)
  show ?thesis
    unfolding schedule_employees_def same by (rule refl)
qed

theorem schedule_deterministic_witness:
  "schedule_employees rotating_lib [''Alice'', ''Bob'']
     [(''Alice'', [''Mon'' \<mapsto> PrefString ''morning'']), (''Bob'', [''Tue'' \<mapsto> PrefString ''evening''])]
     lenient_Config
   = schedule_employees rotating_lib [''Alice'', ''Bob'']
     [(''Bob'', [''Tue'' \<mapsto> PrefString ''evening'']), (''Alice'', [''Mon'' \<mapsto> PrefString ''morning''])]
     lenient_Config"
proof (rule schedule_deterministic)
  show "distinct (map fst [(''Alice'', [''Mon'' \<mapsto> PrefString ''morning'']),
      (''Bob'', [''Tue'' \<mapsto> PrefString ''evening''])])"
    by simp
  show "distinct (map fst [(''Bob'', [''Tue'' \<mapsto> PrefString ''evening'']),
      (''Alice'', [''Mon'' \<mapsto> PrefString ''morning''])])"
    by simp
  show "map_of [(''Alice'', [''Mon'' \<mapsto> PrefString ''morning'']),
      (''Bob'', [''Tue'' \<mapsto> PrefString ''evening''])]
    = map_of [(''Bob'', [''Tue'' \<mapsto> PrefString ''evening'']),
      (''Alice'', [''Mon'' \<mapsto> PrefString ''morning''])]"
    by (rule ext) simp
qed

end
